theory Spec2Isabelle
  imports Main "HOL-Library.Word"
begin

section \<open>The dynamic bitset of \<^verbatim>\<open>Source/dynamic_bitset.hpp\<close>\<close>

text \<open>
  The class template \<^verbatim>\<open>dynamic_bitset<N>\<close> has one data member, the
  \<^verbatim>\<open>std::vector<bool> bits_\<close>; index 0 is the most significant bit. The field
  is called \<open>bits\<close> here, as a name cannot end in an underscore. The template
  parameter \<open>N\<close> is an argument of every operation that constructs an object.

  Integers are those of an LP64 platform: \<^verbatim>\<open>std::size_t\<close> is an unsigned 64-bit word,
  \<^verbatim>\<open>int\<close> a signed 32-bit word, and the conversion of an unsigned value to
  \<^verbatim>\<open>int\<close> keeps the low 32 bits (as every mainstream compiler does, and as the
  language requires since C++20). Sizes and indices are natural numbers; where the
  source computes with them in \<^verbatim>\<open>std::size_t\<close> and the result can wrap, the
  wrap-around is written out. The \<^verbatim>\<open>int\<close> counters of the bitwise loops count
  upwards from 0 to a size. Such a counter leaves the range of \<^verbatim>\<open>int\<close> only on
  vectors of \<open>2^31\<close> bits or more, where \<^verbatim>\<open>++i\<close> overflows and the language leaves the
  behaviour undefined. In the loops of \<^verbatim>\<open>&=\<close>, \<^verbatim>\<open>|=\<close> and \<^verbatim>\<open>^=\<close> the overflow is
  written out. In the loops of \<^verbatim>\<open>&\<close>, \<^verbatim>\<open>|\<close> and \<^verbatim>\<open>^\<close> the counter is a natural
  number, which is exact below \<open>2^31\<close> bits.
\<close>

subsection \<open>Errors\<close>

text \<open>
  \<open>IndexOutOfBounds\<close> is the \<^verbatim>\<open>std::out_of_range\<close> that
  \<^verbatim>\<open>std::vector::at\<close> throws. \<open>PastEnd i\<close> records that the unchecked
  \<^verbatim>\<open>bits_[i]\<close> was evaluated with \<open>i\<close> not below \<^verbatim>\<open>bits_.size()\<close>, which
  the language leaves undefined; the model stops there. \<open>SignedOverflow\<close> records
  that an \<^verbatim>\<open>int\<close> counter was incremented at \<open>INT_MAX\<close>, which is undefined too; the
  model stops there as well.
\<close>

datatype error = IndexOutOfBounds | PastEnd nat | SignedOverflow

record dynamic_bitset =
  bits :: "bool list"

definition SIZE_MAX :: nat where
  "SIZE_MAX = 18446744073709551615"


text \<open>\<^verbatim>\<open>bits_.at(index)\<close>: the checked read.\<close>

definition at :: "bool list \<Rightarrow> nat \<Rightarrow> error + bool" where
  "at v index = (if index < length v then Inr (v ! index) else Inl IndexOutOfBounds)"

text \<open>\<^verbatim>\<open>bits_[i]\<close> as a value and \<^verbatim>\<open>bits_[i] = b\<close>: the unchecked read and write.\<close>

definition vec_get :: "bool list \<Rightarrow> nat \<Rightarrow> error + bool" where
  "vec_get v i = (if i < length v then Inr (v ! i) else Inl (PastEnd i))"

definition vec_set :: "bool list \<Rightarrow> nat \<Rightarrow> bool \<Rightarrow> error + bool list" where
  "vec_set v i b = (if i < length v then Inr (v[i := b]) else Inl (PastEnd i))"

subsection \<open>Padding and the conversions into bits\<close>

text \<open>
  \<^verbatim>\<open>int number_of_padding = bits_.size() - binaries.size();\<close> The difference is
  taken in \<^verbatim>\<open>std::size_t\<close>, where it wraps, and then narrowed to \<^verbatim>\<open>int\<close>.
\<close>

definition number_of_padding :: "nat \<Rightarrow> nat \<Rightarrow> int" where
  "number_of_padding sz n =
     sint (ucast ((word_of_nat sz :: 64 word) - word_of_nat n) :: 32 word)"

function add_padding_loop :: "int \<Rightarrow> int \<Rightarrow> bool list \<Rightarrow> bool list" where
  "add_padding_loop i number base =
     (if i < number then add_padding_loop (i + 1) number (False # base) else base)"
  by pat_completeness auto
termination
  by (relation "measure (\<lambda>(i, number, base). nat (number - i))") auto

declare add_padding_loop.simps [simp del]

definition add_padding :: "bool list \<Rightarrow> int \<Rightarrow> bool list" where
  "add_padding base number = add_padding_loop 0 number base"

text \<open>
  \<^verbatim>\<open>int_to_binary\<close>: the loop runs on positive values only, where the truncating
  \<^verbatim>\<open>/\<close> and \<^verbatim>\<open>%\<close> of C++ are \<open>div\<close> and \<open>mod\<close>. It returns the value left in the
  variable too, which the source converts to \<^verbatim>\<open>bool\<close> when no bit was produced.
\<close>

function int_to_binary_loop :: "int \<Rightarrow> bool list \<Rightarrow> int \<times> bool list" where
  "int_to_binary_loop v temp =
     (if v > 0 then int_to_binary_loop (v div 2) ((v mod 2 \<noteq> 0) # temp) else (v, temp))"
  by pat_completeness auto
termination
  by (relation "measure (\<lambda>(v, temp). nat v)") auto

declare int_to_binary_loop.simps [simp del]

definition int_to_binary :: "int \<Rightarrow> bool list" where
  "int_to_binary v =
     (case int_to_binary_loop v [] of
        (v', temp) \<Rightarrow> if temp = [] then temp @ [v' \<noteq> 0] else temp)"

text \<open>The loops that read a string: \<^verbatim>\<open>binaries.emplace_back(c == '1')\<close> per character.\<close>

fun chars_to_bits :: "string \<Rightarrow> bool list \<Rightarrow> bool list" where
  "chars_to_bits [] binaries = binaries"
| "chars_to_bits (c # cs) binaries = chars_to_bits cs (binaries @ [c = CHR ''1''])"

text \<open>
  \<^verbatim>\<open>string_to_bitset\<close> is a member function: it pads to the size the object has
  when it is called.
\<close>

definition string_to_bitset :: "dynamic_bitset \<Rightarrow> string \<Rightarrow> bool list" where
  "string_to_bitset self binary_string =
     (let number = number_of_padding (length (bits self)) (length binary_string);
          binaries = chars_to_bits binary_string []
      in add_padding binaries number)"

subsection \<open>Constructors\<close>

text \<open>Each constructor first initialises \<^verbatim>\<open>bits_(N)\<close>: \<open>N\<close> bits, all false.\<close>

definition dynamic_bitset_default :: "nat \<Rightarrow> dynamic_bitset" where
  "dynamic_bitset_default N = \<lparr>bits = replicate N False\<rparr>"

definition dynamic_bitset_int :: "nat \<Rightarrow> int \<Rightarrow> dynamic_bitset" where
  "dynamic_bitset_int N v =
     (let self = dynamic_bitset_default N;
          binary = int_to_binary v;
          number = number_of_padding (length (bits self)) (length binary)
      in self\<lparr>bits := add_padding binary number\<rparr>)"

definition dynamic_bitset_vector :: "nat \<Rightarrow> bool list \<Rightarrow> dynamic_bitset" where
  "dynamic_bitset_vector N binaries =
     (let self = dynamic_bitset_default N;
          number = number_of_padding (length (bits self)) (length binaries)
      in self\<lparr>bits := add_padding binaries number\<rparr>)"

definition dynamic_bitset_initializer_list :: "nat \<Rightarrow> bool list \<Rightarrow> dynamic_bitset" where
  "dynamic_bitset_initializer_list N binaries =
     (let self = dynamic_bitset_default N;
          number = number_of_padding (length (bits self)) (length binaries);
          self = self\<lparr>bits := binaries\<rparr>
      in self\<lparr>bits := add_padding (bits self) number\<rparr>)"

definition dynamic_bitset_string :: "nat \<Rightarrow> string \<Rightarrow> dynamic_bitset" where
  "dynamic_bitset_string N binary_string =
     (let self = dynamic_bitset_default N
      in self\<lparr>bits := string_to_bitset self binary_string\<rparr>)"

text \<open>
  The C string constructor; \<open>binary\<close> holds the characters before the terminating
  zero, so \<^verbatim>\<open>strlen(binary)\<close> is its length.
\<close>

definition dynamic_bitset_cstring :: "nat \<Rightarrow> string \<Rightarrow> dynamic_bitset" where
  "dynamic_bitset_cstring N binary =
     (let self = dynamic_bitset_default N;
          number = number_of_padding (length (bits self)) (length binary);
          binaries = chars_to_bits binary []
      in self\<lparr>bits := add_padding binaries number\<rparr>)"

text \<open>
  The move constructor, \<^verbatim>\<open>bits_(std::move(other.bits_))\<close>, takes the storage of
  \<open>other\<close>; it returns the new object and the moved-from \<open>other\<close>, whose vector the
  move constructor of \<^verbatim>\<open>std::vector\<close> leaves empty.
\<close>

definition dynamic_bitset_move :: "dynamic_bitset \<Rightarrow> dynamic_bitset \<times> dynamic_bitset" where
  "dynamic_bitset_move other = (\<lparr>bits = bits other\<rparr>, other\<lparr>bits := []\<rparr>)"

subsection \<open>Element access and inspection\<close>

definition size_bitset :: "dynamic_bitset \<Rightarrow> nat" where
  "size_bitset self = length (bits self)"

text \<open>
  \<^verbatim>\<open>bool operator[](std::size_t index) const\<close>: the result, or the exception, and
  the object after the call.
\<close>

definition operator_subscript_const ::
  "dynamic_bitset \<Rightarrow> nat \<Rightarrow> (error + bool) \<times> dynamic_bitset" where
  "operator_subscript_const self index = (at (bits self) index, self)"

text \<open>
  \<^verbatim>\<open>x[index] = b\<close> through the non-const \<^verbatim>\<open>operator[]\<close>: \<^verbatim>\<open>bits_.at(index)\<close>
  returns the reference or throws, and the assignment writes through the reference.
\<close>

definition operator_subscript_assign ::
  "dynamic_bitset \<Rightarrow> nat \<Rightarrow> bool \<Rightarrow> (error + unit) \<times> dynamic_bitset" where
  "operator_subscript_assign self index b =
     (case at (bits self) index of
        Inl e \<Rightarrow> (Inl e, self)
      | Inr _ \<Rightarrow> (Inr (), self\<lparr>bits := (bits self)[index := b]\<rparr>))"

text \<open>\<^verbatim>\<open>std::all_of\<close>, \<^verbatim>\<open>std::any_of\<close> and \<^verbatim>\<open>std::none_of\<close> over the range of the bits.\<close>

fun all_of :: "('a \<Rightarrow> bool) \<Rightarrow> 'a list \<Rightarrow> bool" where
  "all_of p [] = True"
| "all_of p (x # xs) = (if p x then all_of p xs else False)"

fun any_of :: "('a \<Rightarrow> bool) \<Rightarrow> 'a list \<Rightarrow> bool" where
  "any_of p [] = False"
| "any_of p (x # xs) = (if p x then True else any_of p xs)"

fun none_of :: "('a \<Rightarrow> bool) \<Rightarrow> 'a list \<Rightarrow> bool" where
  "none_of p [] = True"
| "none_of p (x # xs) = (if p x then False else none_of p xs)"

definition all :: "dynamic_bitset \<Rightarrow> bool" where
  "all self = all_of (\<lambda>b. b) (bits self)"

definition any :: "dynamic_bitset \<Rightarrow> bool" where
  "any self = any_of (\<lambda>b. b) (bits self)"

definition none :: "dynamic_bitset \<Rightarrow> bool" where
  "none self = none_of (\<lambda>b. b) (bits self)"

subsection \<open>Conversions out of bits\<close>

fun to_string_loop :: "bool list \<Rightarrow> string \<Rightarrow> string" where
  "to_string_loop [] str = str"
| "to_string_loop (b # rest) str =
     to_string_loop rest (str @ [if b = True then CHR ''1'' else CHR ''0''])"

definition to_string :: "dynamic_bitset \<Rightarrow> string" where
  "to_string self = to_string_loop (bits self) []"

text \<open>
  \<^verbatim>\<open>to_ulong\<close> walks the bits from the last to the first; \<open>val\<close> and \<open>pow\<close> are
  its \<^verbatim>\<open>value\<close> and \<^verbatim>\<open>power\<close>, both \<^verbatim>\<open>std::size_t\<close>, so both wrap at 64 bits.
\<close>

fun to_ulong_loop :: "bool list \<Rightarrow> 64 word \<Rightarrow> 64 word \<Rightarrow> 64 word" where
  "to_ulong_loop [] val pow = val"
| "to_ulong_loop (b # it) val pow =
     to_ulong_loop it (if b then val + pow else val) (pow * 2)"

definition to_ulong :: "dynamic_bitset \<Rightarrow> 64 word" where
  "to_ulong self = to_ulong_loop (rev (bits self)) 0 1"

subsection \<open>Bitwise operators\<close>

text \<open>
  The element of the new vector at \<open>i\<close>. \<^verbatim>\<open>other[i]\<close> is the checked
  \<^verbatim>\<open>operator[] const\<close>, \<^verbatim>\<open>bits_[i]\<close> the unchecked read of the vector;
  \<^verbatim>\<open>&&\<close> and \<^verbatim>\<open>||\<close> evaluate their right operand only when the left one does not
  decide.
\<close>

definition and_element :: "dynamic_bitset \<Rightarrow> dynamic_bitset \<Rightarrow> nat \<Rightarrow> error + bool" where
  "and_element self other i =
     (case fst (operator_subscript_const other i) of
        Inl e \<Rightarrow> Inl e
      | Inr ob \<Rightarrow> if ob then vec_get (bits self) i else Inr False)"

definition or_element :: "dynamic_bitset \<Rightarrow> dynamic_bitset \<Rightarrow> nat \<Rightarrow> error + bool" where
  "or_element self other i =
     (case fst (operator_subscript_const other i) of
        Inl e \<Rightarrow> Inl e
      | Inr ob \<Rightarrow> if ob then Inr True else vec_get (bits self) i)"

definition xor_element :: "dynamic_bitset \<Rightarrow> dynamic_bitset \<Rightarrow> nat \<Rightarrow> error + bool" where
  "xor_element self other i =
     (case fst (operator_subscript_const other i) of
        Inl e \<Rightarrow> Inl e
      | Inr ob \<Rightarrow> (case vec_get (bits self) i of Inl e \<Rightarrow> Inl e | Inr b \<Rightarrow> Inr (ob \<noteq> b)))"

text \<open>
  \<^verbatim>\<open>for (int i = 0; i < size; ++i) set.emplace_back(...)\<close>; \<open>out\<close> is the vector \<^verbatim>\<open>set\<close>.
  The counter is a natural number here, which is the \<^verbatim>\<open>int\<close> of the source as long as
  \<open>size\<close> is below \<open>2^31\<close>; what is proved of these operators is proved under that bound.
\<close>

function emplace_loop ::
  "(nat \<Rightarrow> error + bool) \<Rightarrow> nat \<Rightarrow> nat \<Rightarrow> bool list \<Rightarrow> error + bool list" where
  "emplace_loop element i sz out =
     (if i < sz then
        (case element i of
           Inl e \<Rightarrow> Inl e
         | Inr b \<Rightarrow> emplace_loop element (i + 1) sz (out @ [b]))
      else Inr out)"
  by pat_completeness auto
termination
  by (relation "measure (\<lambda>(element, i, sz, out). sz - i)") auto

declare emplace_loop.simps [simp del]

text \<open>
  The operators return \<^verbatim>\<open>dynamic_bitset(set)\<close>, an object of the same class
  \<^verbatim>\<open>dynamic_bitset<N>\<close>, built by the constructor from a vector.
\<close>

definition operator_and :: "nat \<Rightarrow> dynamic_bitset \<Rightarrow> dynamic_bitset \<Rightarrow> error + dynamic_bitset" where
  "operator_and N self other =
     (let sz = min (length (bits self)) (size_bitset other)
      in case emplace_loop (and_element self other) 0 sz [] of
           Inl e \<Rightarrow> Inl e
         | Inr out \<Rightarrow> Inr (dynamic_bitset_vector N out))"

definition operator_or :: "nat \<Rightarrow> dynamic_bitset \<Rightarrow> dynamic_bitset \<Rightarrow> error + dynamic_bitset" where
  "operator_or N self other =
     (let sz = min (length (bits self)) (size_bitset other)
      in case emplace_loop (or_element self other) 0 sz [] of
           Inl e \<Rightarrow> Inl e
         | Inr out \<Rightarrow> Inr (dynamic_bitset_vector N out))"

definition operator_xor :: "nat \<Rightarrow> dynamic_bitset \<Rightarrow> dynamic_bitset \<Rightarrow> error + dynamic_bitset" where
  "operator_xor N self other =
     (let sz = min (length (bits self)) (size_bitset other)
      in case emplace_loop (xor_element self other) 0 sz [] of
           Inl e \<Rightarrow> Inl e
         | Inr out \<Rightarrow> Inr (dynamic_bitset_vector N out))"




text \<open>
  \<^verbatim>\<open>for (std::size_t i = ...; i < stop; ++i) bits_[i] = ...\<close>, the loop of the shift
  operators, whose counter is a \<^verbatim>\<open>std::size_t\<close> that stays below a size.
\<close>

function assign_loop ::
  "(bool list \<Rightarrow> nat \<Rightarrow> error + bool) \<Rightarrow> nat \<Rightarrow> nat \<Rightarrow> bool list \<Rightarrow> error + bool list" where
  "assign_loop element i stop v =
     (if i < stop then
        (case element v i of
           Inl e \<Rightarrow> Inl e
         | Inr b \<Rightarrow>
             (case vec_set v i b of
                Inl e \<Rightarrow> Inl e
              | Inr v' \<Rightarrow> assign_loop element (i + 1) stop v'))
      else Inr v)"
  by pat_completeness auto
termination
  by (relation "measure (\<lambda>(element, i, stop, v). stop - i)") auto

declare assign_loop.simps [simp del]






subsection \<open>Shifts\<close>

text \<open>
  \<^verbatim>\<open>operator<<=\<close>. The first loop runs \<open>i\<close> over the whole vector and reads
  \<^verbatim>\<open>bits_[i + shift_amount]\<close>; the second one clears the last \<open>shift_amount\<close> bits.
  The unchecked read of the first loop is the parameter \<open>read\<close>. The operator is the
  instance with \<open>vec_get\<close>, which stops at a read past the end. With
  \<open>vec_get_stray mem\<close> such a read returns the bit \<open>mem i\<close> that the memory happens to
  hold at the index \<open>i\<close>, and the loop goes on.
\<close>

definition vec_get_stray :: "(nat \<Rightarrow> bool) \<Rightarrow> bool list \<Rightarrow> nat \<Rightarrow> error + bool" where
  "vec_get_stray mem v i = Inr (if i < length v then v ! i else mem i)"

definition operator_shl_assign_with ::
  "(bool list \<Rightarrow> nat \<Rightarrow> error + bool) \<Rightarrow> dynamic_bitset \<Rightarrow> nat \<Rightarrow> error + dynamic_bitset" where
  "operator_shl_assign_with read self shift_amount =
     (if shift_amount \<ge> length (bits self)
      then Inr (self\<lparr>bits := replicate (length (bits self)) False\<rparr>)
      else
        (case assign_loop (\<lambda>v i. read v (i + shift_amount)) 0 (length (bits self)) (bits self) of
           Inl e \<Rightarrow> Inl e
         | Inr v \<Rightarrow>
             (case assign_loop (\<lambda>v i. Inr False) (length v - shift_amount) (length v) v of
                Inl e \<Rightarrow> Inl e
              | Inr v' \<Rightarrow> Inr (self\<lparr>bits := v'\<rparr>))))"

definition operator_shl_assign :: "dynamic_bitset \<Rightarrow> nat \<Rightarrow> error + dynamic_bitset" where
  "operator_shl_assign self shift_amount = operator_shl_assign_with vec_get self shift_amount"

text \<open>
  \<^verbatim>\<open>operator>>=\<close>. The counter of the first loop is a \<^verbatim>\<open>std::size_t\<close> that counts
  down while \<^verbatim>\<open>i >= shift_amount\<close>: decrementing 0 gives \<open>SIZE_MAX\<close>. Nothing in
  the text of the loop bounds the number of its steps, so it is a partial function:
  \<open>None\<close> is a loop that never ends.
\<close>

partial_function (option) shr_loop ::
  "nat \<Rightarrow> nat \<Rightarrow> bool list \<Rightarrow> (error + bool list) option" where
  "shr_loop i shift_amount v =
     (if i \<ge> shift_amount then
        (case vec_get v (i - shift_amount) of
           Inl e \<Rightarrow> Some (Inl e)
         | Inr b \<Rightarrow>
             (case vec_set v i b of
                Inl e \<Rightarrow> Some (Inl e)
              | Inr v' \<Rightarrow> shr_loop (if i = 0 then SIZE_MAX else i - 1) shift_amount v'))
      else Some (Inr v))"

declare shr_loop.simps [code]

definition operator_shr_assign :: "dynamic_bitset \<Rightarrow> nat \<Rightarrow> (error + dynamic_bitset) option" where
  "operator_shr_assign self shift_amount =
     (if shift_amount \<ge> length (bits self)
      then Some (Inr (self\<lparr>bits := replicate (length (bits self)) False\<rparr>))
      else
        (case shr_loop (length (bits self) - 1) shift_amount (bits self) of
           None \<Rightarrow> None
         | Some (Inl e) \<Rightarrow> Some (Inl e)
         | Some (Inr v) \<Rightarrow>
             (case assign_loop (\<lambda>v i. Inr False) 0 shift_amount v of
                Inl e \<Rightarrow> Some (Inl e)
              | Inr v' \<Rightarrow> Some (Inr (self\<lparr>bits := v'\<rparr>)))))"

subsection \<open>The number a bit sequence stands for\<close>

text \<open>
  This definition follows the words of the specification, not the code: the sequence
  read as a binary number with the most significant bit first, so that the bit at
  index \<open>i\<close> of \<open>n\<close> bits weighs \<open>2 ^ (n - 1 - i)\<close>. The result of \<^verbatim>\<open>to_ulong\<close> is
  compared with it.
\<close>

definition big_endian_value :: "bool list \<Rightarrow> nat" where
  "big_endian_value v = (\<Sum>i < length v. if v ! i then 2 ^ (length v - 1 - i) else 0)"

subsection \<open>The padding rule\<close>

text \<open>
  This definition follows the words of the specification, not the code: with
  \<open>pad = N - source_length\<close>, a positive \<open>pad\<close> puts that many false bits in front
  of the source, and otherwise the source is used as it is. The constructors are
  compared with it.
\<close>

definition padding_rule :: "nat \<Rightarrow> bool list \<Rightarrow> bool list" where
  "padding_rule N source =
     (let pad = int N - int (length source)
      in if pad > 0 then replicate (nat pad) False @ source else source)"

text \<open>The values of an \<^verbatim>\<open>int\<close>.\<close>

definition fits_int :: "int \<Rightarrow> bool" where
  "fits_int k \<longleftrightarrow> - (2 ^ 31) \<le> k \<and> k < 2 ^ 31"

section \<open>The loops in closed form\<close>

subsection \<open>The padding count\<close>

lemma ucast_word_of_int_64_32:
  "(ucast (word_of_int k :: 64 word) :: 32 word) = word_of_int k"
  by (rule ucast_down_wi) (simp add: is_down)

lemma sint_word_of_int_32: "sint (word_of_int k :: 32 word) = signed_take_bit 31 k"
  by (simp only: sint_sbintrunc') simp

lemma size_t_difference:
  "(word_of_nat sz :: 64 word) - word_of_nat n = word_of_int (int sz - int n)"
  by simp

lemma number_of_padding_signed:
  "number_of_padding sz n = signed_take_bit 31 (int sz - int n)"
  unfolding number_of_padding_def
  by (simp only: size_t_difference ucast_word_of_int_64_32 sint_word_of_int_32)

text \<open>The count is the difference of the two sizes as long as that fits an \<^verbatim>\<open>int\<close>.\<close>

lemma number_of_padding_exact:
  assumes "- (2 ^ 31) \<le> int sz - int n" and "int sz - int n < 2 ^ 31"
  shows "number_of_padding sz n = int sz - int n"
  unfolding number_of_padding_signed
  using assms by (rule signed_take_bit_int_eq_self)

lemma number_of_padding_same: "number_of_padding n n = 0"
  by (simp add: number_of_padding_signed)

subsection \<open>Padding and strings\<close>

lemma add_padding_loop_eq:
  "add_padding_loop i number base = replicate (nat (number - i)) False @ base"
proof (induction "nat (number - i)" arbitrary: i base)
  case 0
  then show ?case by (subst add_padding_loop.simps) simp
next
  case (Suc d)
  then have lt: "i < number" by simp
  have "d = nat (number - (i + 1))" using Suc.hyps(2) by simp
  then have "add_padding_loop (i + 1) number (False # base) =
      replicate (nat (number - (i + 1))) False @ False # base"
    by (rule Suc.hyps(1))
  moreover have "nat (number - i) = Suc (nat (number - (i + 1)))" using lt by simp
  ultimately show ?case
    by (subst add_padding_loop.simps) (simp add: lt replicate_app_Cons_same)
qed

lemma add_padding_eq: "add_padding base number = replicate (nat number) False @ base"
  by (simp add: add_padding_def add_padding_loop_eq)

lemma chars_to_bits_eq: "chars_to_bits s binaries = binaries @ map (\<lambda>c. c = CHR ''1'') s"
  by (induction s arbitrary: binaries) simp_all

lemma to_string_loop_eq:
  "to_string_loop v str = str @ map (\<lambda>b. if b then CHR ''1'' else CHR ''0'') v"
  by (induction v arbitrary: str) simp_all

subsection \<open>The bitwise loops\<close>

lemma emplace_loop_eq:
  assumes "\<And>j. i \<le> j \<Longrightarrow> j < sz \<Longrightarrow> element j = Inr (f j)"
  shows "emplace_loop element i sz out = Inr (out @ map f [i..<sz])"
  using assms
proof (induction "sz - i" arbitrary: i out)
  case 0
  then show ?case by (subst emplace_loop.simps) simp
next
  case (Suc d)
  then have lt: "i < sz" by simp
  have el: "element i = Inr (f i)" using Suc.prems lt by simp
  have "emplace_loop element (i + 1) sz (out @ [f i]) = Inr ((out @ [f i]) @ map f [i + 1..<sz])"
  proof (rule Suc.hyps(1))
    show "d = sz - (i + 1)" using Suc.hyps(2) by simp
  next
    fix j assume "i + 1 \<le> j" "j < sz"
    then show "element j = Inr (f j)" using Suc.prems by simp
  qed
  then show ?case
    by (subst emplace_loop.simps) (simp add: lt el upt_conv_Cons)
qed

lemma and_element_eq:
  "j < length (bits self) \<Longrightarrow> j < length (bits other) \<Longrightarrow>
   and_element self other j = Inr (bits self ! j \<and> bits other ! j)"
  by (auto simp: and_element_def operator_subscript_const_def at_def vec_get_def)

lemma or_element_eq:
  "j < length (bits self) \<Longrightarrow> j < length (bits other) \<Longrightarrow>
   or_element self other j = Inr (bits self ! j \<or> bits other ! j)"
  by (auto simp: or_element_def operator_subscript_const_def at_def vec_get_def)

lemma xor_element_eq:
  "j < length (bits self) \<Longrightarrow> j < length (bits other) \<Longrightarrow>
   xor_element self other j = Inr (bits self ! j \<noteq> bits other ! j)"
  by (auto simp: xor_element_def operator_subscript_const_def at_def vec_get_def)

lemma dynamic_bitset_vector_bits:
  assumes "- (2 ^ 31) \<le> int N - int (length src)" and "int N - int (length src) < 2 ^ 31"
  shows "bits (dynamic_bitset_vector N src) = replicate (N - length src) False @ src"
  using assms
  by (simp add: dynamic_bitset_vector_def dynamic_bitset_default_def Let_def
      number_of_padding_exact add_padding_eq nat_diff_distrib' del: replicate_eq_replicate)

lemma operator_and_eq:
  "operator_and N a b = Inr (dynamic_bitset_vector N
     (map (\<lambda>i. bits a ! i \<and> bits b ! i) [0..<min (size_bitset a) (size_bitset b)]))"
proof -
  have "emplace_loop (and_element a b) 0 (min (size_bitset a) (size_bitset b)) [] =
      Inr ([] @ map (\<lambda>i. bits a ! i \<and> bits b ! i) [0..<min (size_bitset a) (size_bitset b)])"
    by (rule emplace_loop_eq) (simp add: and_element_eq size_bitset_def)
  then show ?thesis
    by (simp add: operator_and_def size_bitset_def)
qed

lemma operator_or_eq:
  "operator_or N a b = Inr (dynamic_bitset_vector N
     (map (\<lambda>i. bits a ! i \<or> bits b ! i) [0..<min (size_bitset a) (size_bitset b)]))"
proof -
  have "emplace_loop (or_element a b) 0 (min (size_bitset a) (size_bitset b)) [] =
      Inr ([] @ map (\<lambda>i. bits a ! i \<or> bits b ! i) [0..<min (size_bitset a) (size_bitset b)])"
    by (rule emplace_loop_eq) (simp add: or_element_eq size_bitset_def)
  then show ?thesis
    by (simp add: operator_or_def size_bitset_def)
qed

lemma operator_xor_eq:
  "operator_xor N a b = Inr (dynamic_bitset_vector N
     (map (\<lambda>i. bits a ! i \<noteq> bits b ! i) [0..<min (size_bitset a) (size_bitset b)]))"
proof -
  have "emplace_loop (xor_element a b) 0 (min (size_bitset a) (size_bitset b)) [] =
      Inr ([] @ map (\<lambda>i. bits a ! i \<noteq> bits b ! i) [0..<min (size_bitset a) (size_bitset b)])"
    by (rule emplace_loop_eq) (simp add: xor_element_eq size_bitset_def)
  then show ?thesis
    by (simp add: operator_xor_def size_bitset_def)
qed

lemma vector_of_map_unpadded:
  assumes "N \<le> m" and "m < 2 ^ 31"
  shows "bits (dynamic_bitset_vector N (map f [0..<m])) = map f [0..<m]"
proof -
  have "bits (dynamic_bitset_vector N (map f [0..<m])) =
      replicate (N - length (map f [0..<m])) False @ map f [0..<m]"
    using assms by (intro dynamic_bitset_vector_bits) simp_all
  with assms show ?thesis by simp
qed

subsection \<open>The constructors\<close>

lemma dynamic_bitset_initializer_list_bits:
  assumes "- (2 ^ 31) \<le> int N - int (length src)" and "int N - int (length src) < 2 ^ 31"
  shows "bits (dynamic_bitset_initializer_list N src) = replicate (N - length src) False @ src"
  using assms
  by (simp add: dynamic_bitset_initializer_list_def dynamic_bitset_default_def Let_def
      number_of_padding_exact add_padding_eq nat_diff_distrib' del: replicate_eq_replicate)

lemma dynamic_bitset_string_bits:
  assumes "- (2 ^ 31) \<le> int N - int (length s)" and "int N - int (length s) < 2 ^ 31"
  shows "bits (dynamic_bitset_string N s) =
     replicate (N - length s) False @ map (\<lambda>c. c = CHR ''1'') s"
  using assms
  by (simp add: dynamic_bitset_string_def string_to_bitset_def dynamic_bitset_default_def Let_def
      number_of_padding_exact add_padding_eq chars_to_bits_eq nat_diff_distrib'
      del: replicate_eq_replicate)

lemma dynamic_bitset_cstring_bits:
  assumes "- (2 ^ 31) \<le> int N - int (length s)" and "int N - int (length s) < 2 ^ 31"
  shows "bits (dynamic_bitset_cstring N s) =
     replicate (N - length s) False @ map (\<lambda>c. c = CHR ''1'') s"
  using assms
  by (simp add: dynamic_bitset_cstring_def dynamic_bitset_default_def Let_def
      number_of_padding_exact add_padding_eq chars_to_bits_eq nat_diff_distrib'
      del: replicate_eq_replicate)

lemma dynamic_bitset_int_bits:
  assumes "- (2 ^ 31) \<le> int N - int (length (int_to_binary v))"
    and "int N - int (length (int_to_binary v)) < 2 ^ 31"
  shows "bits (dynamic_bitset_int N v) =
     replicate (N - length (int_to_binary v)) False @ int_to_binary v"
  using assms
  by (simp add: dynamic_bitset_int_def dynamic_bitset_default_def Let_def
      number_of_padding_exact add_padding_eq nat_diff_distrib' del: replicate_eq_replicate)

lemma int_to_binary_10: "int_to_binary 10 = [True, False, True, False]"
  by (simp add: int_to_binary_def int_to_binary_loop.simps)

lemma bits_010010: "bits (dynamic_bitset_cstring 0 ''010010'') = [False, True, False, False, True, False]"
  by (simp add: dynamic_bitset_cstring_bits)

lemma bits_10101: "bits (dynamic_bitset_cstring 0 ''10101'') = [True, False, True, False, True]"
  by (simp add: dynamic_bitset_cstring_bits)

lemma bits_5_10101: "bits (dynamic_bitset_cstring 5 ''10101'') = [True, False, True, False, True]"
  by (simp add: dynamic_bitset_cstring_bits)

lemma bits_5_10001: "bits (dynamic_bitset_cstring 5 ''10001'') = [True, False, False, False, True]"
  by (simp add: dynamic_bitset_cstring_bits)

lemma bits_6_10101: "bits (dynamic_bitset_cstring 6 ''10101'') = [False, True, False, True, False, True]"
  by (simp add: dynamic_bitset_cstring_bits)

lemma bits_int_6_10: "bits (dynamic_bitset_int 6 10) = [False, False, True, False, True, False]"
  by (simp add: dynamic_bitset_int_bits int_to_binary_10 numeral_2_eq_2)

lemma replicate_5: "replicate 5 x = [x, x, x, x, x]"
  by (simp add: numeral_eq_Suc)

subsection \<open>The loops that assign in place\<close>

lemma assign_loop_pointwise:
  assumes "stop \<le> length v"
    and "\<And>w j. length w = length v \<Longrightarrow> j < stop \<Longrightarrow> element w j = Inr (g (w ! j) j)"
  shows "\<exists>v'. assign_loop element i stop v = Inr v' \<and> length v' = length v \<and>
           (\<forall>j < length v. v' ! j = (if i \<le> j \<and> j < stop then g (v ! j) j else v ! j))"
  using assms
proof (induction "stop - i" arbitrary: i v)
  case 0
  then show ?case by (subst assign_loop.simps) auto
next
  case (Suc d)
  then have lt: "i < stop" by simp
  let ?v1 = "v[i := g (v ! i) i]"
  have el: "element v i = Inr (g (v ! i) i)" using Suc.prems(2) lt by simp
  have st: "vec_set v i (g (v ! i) i) = Inr ?v1"
    using lt Suc.prems(1) by (simp add: vec_set_def)
  have "\<exists>v'. assign_loop element (i + 1) stop ?v1 = Inr v' \<and> length v' = length ?v1 \<and>
           (\<forall>j < length ?v1. v' ! j = (if i + 1 \<le> j \<and> j < stop then g (?v1 ! j) j else ?v1 ! j))"
  proof (rule Suc.hyps(1))
    show "d = stop - (i + 1)" using Suc.hyps(2) by simp
    show "stop \<le> length ?v1" using Suc.prems(1) by simp
    fix w :: "bool list" and j assume "length w = length ?v1" "j < stop"
    then show "element w j = Inr (g (w ! j) j)" using Suc.prems(2) by simp
  qed
  then obtain v' where v': "assign_loop element (i + 1) stop ?v1 = Inr v'" "length v' = length v"
    "\<forall>j < length v. v' ! j = (if i + 1 \<le> j \<and> j < stop then g (?v1 ! j) j else ?v1 ! j)"
    by auto
  have "assign_loop element i stop v = Inr v'"
    using v'(1) by (subst assign_loop.simps) (simp add: lt el st)
  moreover have "\<forall>j < length v. v' ! j = (if i \<le> j \<and> j < stop then g (v ! j) j else v ! j)"
  proof (intro allI impI)
    fix j assume j: "j < length v"
    show "v' ! j = (if i \<le> j \<and> j < stop then g (v ! j) j else v ! j)"
    proof (cases "j = i")
      case True
      with v'(3) j lt show ?thesis by simp
    next
      case False
      with v'(3) j show ?thesis by (auto simp: nth_list_update)
    qed
  qed
  ultimately show ?case using v'(2) by blast
qed












subsection \<open>Strings of digits\<close>

lemma dynamic_bitset_vector_same_length:
  "length v = N \<Longrightarrow> dynamic_bitset_vector N v = \<lparr>bits = v\<rparr>"
  by (simp add: dynamic_bitset_vector_def dynamic_bitset_default_def number_of_padding_same
      add_padding_eq)

lemma dynamic_bitset_string_same_length:
  "length s = N \<Longrightarrow> dynamic_bitset_string N s = \<lparr>bits = map (\<lambda>c. c = CHR ''1'') s\<rparr>"
  by (simp add: dynamic_bitset_string_def string_to_bitset_def dynamic_bitset_default_def
      number_of_padding_same add_padding_eq chars_to_bits_eq)

lemma to_string_eq: "to_string a = map (\<lambda>b. if b then CHR ''1'' else CHR ''0'') (bits a)"
  by (simp add: to_string_def to_string_loop_eq)

lemma bits_of_digits:
  "map (\<lambda>c. c = CHR ''1'') (map (\<lambda>b. if b then CHR ''1'' else CHR ''0'') v) = v"
  by (induction v) simp_all

lemma digits_of_bits:
  "\<forall>c \<in> set s. c = CHR ''0'' \<or> c = CHR ''1'' \<Longrightarrow>
   map (\<lambda>b. if b then CHR ''1'' else CHR ''0'') (map (\<lambda>c. c = CHR ''1'') s) = s"
  by (induction s) auto

subsection \<open>The conversion to an unsigned integer\<close>

lemma big_endian_value_Nil: "big_endian_value [] = 0"
  by (simp add: big_endian_value_def)

lemma big_endian_value_snoc:
  "big_endian_value (v @ [b]) = 2 * big_endian_value v + (if b then 1 else 0)"
proof -
  have "(\<Sum>i < length v. if (v @ [b]) ! i then 2 ^ (length (v @ [b]) - 1 - i) else 0) =
      (\<Sum>i < length v. 2 * (if v ! i then 2 ^ (length v - 1 - i) else 0 :: nat))"
  proof (rule sum.cong)
    fix i assume "i \<in> {..<length v}"
    then have i: "i < length v" by simp
    then have "length (v @ [b]) - 1 - i = Suc (length v - 1 - i)" by simp
    with i show "(if (v @ [b]) ! i then 2 ^ (length (v @ [b]) - 1 - i) else 0) =
        2 * (if v ! i then 2 ^ (length v - 1 - i) else 0 :: nat)"
      by (simp add: nth_append)
  qed simp
  then show ?thesis
    by (simp add: big_endian_value_def sum_distrib_left)
qed

lemma big_endian_value_less: "big_endian_value v < 2 ^ length v"
proof (induction v rule: rev_induct)
  case Nil
  then show ?case by (simp add: big_endian_value_Nil)
next
  case (snoc b v)
  then show ?case by (simp add: big_endian_value_snoc)
qed

lemma to_ulong_loop_eq:
  "to_ulong_loop xs val pow = val + pow * word_of_nat (big_endian_value (rev xs))"
proof (induction xs arbitrary: val pow)
  case Nil
  then show ?case by (simp add: big_endian_value_Nil)
next
  case (Cons b it)
  then show ?case by (simp add: big_endian_value_snoc algebra_simps)
qed

lemma to_ulong_eq: "to_ulong a = word_of_nat (big_endian_value (bits a))"
  by (simp add: to_ulong_def to_ulong_loop_eq)

lemma unat_to_ulong: "unat (to_ulong a) = big_endian_value (bits a) mod 2 ^ 64"
  by (simp add: to_ulong_eq unat_of_nat)

lemma big_endian_value_one_then_zeros:
  "big_endian_value (True # replicate n False) = 2 ^ n"
proof (induction n)
  case 0
  have "big_endian_value ([] @ [True]) = 1"
    by (simp only: big_endian_value_snoc big_endian_value_Nil) simp
  then show ?case by simp
next
  case (Suc n)
  have "True # replicate (Suc n) False = (True # replicate n False) @ [False]"
    by (simp add: replicate_append_same)
  then show ?case using Suc by (simp only: big_endian_value_snoc) simp
qed

lemma big_endian_value_010101:
  "big_endian_value [False, True, False, True, False, True] = 21"
proof -
  have "[False, True, False, True, False, True] = (((((([] @ [False]) @ [True]) @ [False]) @ [True]) @ [False]) @ [True])"
    by simp
  then show ?thesis
    by (simp only: big_endian_value_snoc big_endian_value_Nil) simp
qed

lemma padding_rule_eq: "padding_rule N source = replicate (N - length source) False @ source"
  by (simp add: padding_rule_def Let_def nat_diff_distrib')

subsection \<open>The shift loops\<close>

lemma assign_loop_fails:
  assumes "i \<le> m" and "m < stop" and "stop \<le> length v"
    and "\<And>w j. length w = length v \<Longrightarrow> j < m \<Longrightarrow> \<exists>b. element w j = Inr b"
    and "\<And>w. length w = length v \<Longrightarrow> element w m = Inl e"
  shows "assign_loop element i stop v = Inl e"
  using assms
proof (induction "m - i" arbitrary: i v)
  case 0
  then have "i = m" by simp
  with 0 show ?case by (subst assign_loop.simps) simp
next
  case (Suc d)
  then have lt: "i < m" by simp
  then obtain b where b: "element v i = Inr b" using Suc.prems(4) by blast
  have st: "vec_set v i b = Inr (v[i := b])"
    using lt Suc.prems(2,3) by (simp add: vec_set_def)
  have "assign_loop element (i + 1) stop (v[i := b]) = Inl e"
  proof (rule Suc.hyps(1))
    show "d = m - (i + 1)" using Suc.hyps(2) by simp
    show "i + 1 \<le> m" using lt by simp
    show "m < stop" by (rule Suc.prems(2))
    show "stop \<le> length (v[i := b])" using Suc.prems(3) by simp
  next
    fix w :: "bool list" and j assume "length w = length (v[i := b])" "j < m"
    then show "\<exists>b. element w j = Inr b" using Suc.prems(4) by simp
  next
    fix w :: "bool list" assume "length w = length (v[i := b])"
    then show "element w m = Inl e" using Suc.prems(5) by simp
  qed
  then show ?case
    using lt Suc.prems(2) by (subst assign_loop.simps) (simp add: b st)
qed

lemma operator_shl_assign_past_end:
  assumes "0 < k" and "k < length (bits a)"
  shows "operator_shl_assign a k = Inl (PastEnd (length (bits a)))"
proof -
  let ?n = "length (bits a)"
  have "assign_loop (\<lambda>v i. vec_get v (i + k)) 0 ?n (bits a) = Inl (PastEnd ?n)"
  proof (rule assign_loop_fails [where m = "?n - k"])
    show "0 \<le> ?n - k" by simp
    show "?n - k < ?n" using assms by simp
    show "?n \<le> length (bits a)" by simp
  next
    fix w :: "bool list" and j assume "length w = length (bits a)" "j < ?n - k"
    then show "\<exists>b. vec_get w (j + k) = Inr b" by (simp add: vec_get_def)
  next
    fix w :: "bool list" assume "length w = length (bits a)"
    then show "vec_get w (?n - k + k) = Inl (PastEnd ?n)" using assms by (simp add: vec_get_def)
  qed
  with assms show ?thesis by (simp add: operator_shl_assign_def operator_shl_assign_with_def)
qed

lemma shr_loop_zero:
  assumes "i < length v" and "length v \<le> SIZE_MAX"
  shows "shr_loop i 0 v = Some (Inl (PastEnd SIZE_MAX))"
  using assms
proof (induction i arbitrary: v)
  case 0
  have "shr_loop SIZE_MAX 0 v = Some (Inl (PastEnd SIZE_MAX))"
    using 0 by (subst shr_loop.simps) (simp add: vec_get_def)
  then show ?case
    using 0 by (subst shr_loop.simps) (simp add: vec_get_def vec_set_def)
next
  case (Suc i)
  then have "shr_loop i 0 v = Some (Inl (PastEnd SIZE_MAX))" by simp
  then show ?case
    using Suc.prems by (subst shr_loop.simps) (simp add: vec_get_def vec_set_def)
qed

lemma operator_shr_assign_zero:
  assumes "0 < length (bits a)" and "length (bits a) \<le> SIZE_MAX"
  shows "operator_shr_assign a 0 = Some (Inl (PastEnd SIZE_MAX))"
proof -
  have "shr_loop (length (bits a) - 1) 0 (bits a) = Some (Inl (PastEnd SIZE_MAX))"
    using assms by (intro shr_loop_zero) simp_all
  with assms show ?thesis by (simp add: operator_shr_assign_def)
qed

lemma shr_loop_stops: "i < k \<Longrightarrow> shr_loop i k v = Some (Inr v)"
  by (subst shr_loop.simps) simp

lemma shr_loop_down:
  assumes "0 < k" and "k \<le> i" and "i < length v"
  shows "\<exists>v'. shr_loop i k v = Some (Inr v') \<and> length v' = length v \<and>
           (\<forall>j < length v. v' ! j = (if k \<le> j \<and> j \<le> i then v ! (j - k) else v ! j))"
  using assms
proof (induction "i - k" arbitrary: i v)
  case 0
  then have ik: "i = k" by simp
  let ?v1 = "v[i := v ! (i - k)]"
  have stop: "shr_loop (i - 1) k ?v1 = Some (Inr ?v1)"
    using 0 ik by (intro shr_loop_stops) simp
  have "shr_loop i k v = Some (Inr ?v1)"
    using 0 stop by (subst shr_loop.simps) (auto simp: vec_get_def vec_set_def)
  moreover have "\<forall>j < length v. ?v1 ! j = (if k \<le> j \<and> j \<le> i then v ! (j - k) else v ! j)"
    using ik by (auto simp: nth_list_update)
  ultimately show ?case by simp
next
  case (Suc d)
  then have lt: "k < i" by simp
  let ?v1 = "v[i := v ! (i - k)]"
  have "\<exists>v'. shr_loop (i - 1) k ?v1 = Some (Inr v') \<and> length v' = length ?v1 \<and>
           (\<forall>j < length ?v1. v' ! j = (if k \<le> j \<and> j \<le> i - 1 then ?v1 ! (j - k) else ?v1 ! j))"
  proof (rule Suc.hyps(1))
    show "d = i - 1 - k" using Suc.hyps(2) by simp
    show "0 < k" by (rule Suc.prems(1))
    show "k \<le> i - 1" using lt by simp
    show "i - 1 < length ?v1" using Suc.prems(3) by simp
  qed
  then obtain v' where v': "shr_loop (i - 1) k ?v1 = Some (Inr v')" "length v' = length v"
    "\<forall>j < length v. v' ! j = (if k \<le> j \<and> j \<le> i - 1 then ?v1 ! (j - k) else ?v1 ! j)"
    by auto
  have "shr_loop i k v = Some (Inr v')"
    using Suc.prems lt v'(1) by (subst shr_loop.simps) (simp add: vec_get_def vec_set_def)
  moreover have "\<forall>j < length v. v' ! j = (if k \<le> j \<and> j \<le> i then v ! (j - k) else v ! j)"
  proof (intro allI impI)
    fix j assume j: "j < length v"
    show "v' ! j = (if k \<le> j \<and> j \<le> i then v ! (j - k) else v ! j)"
    proof (cases "j = i")
      case True
      with v'(3) j lt Suc.prems show ?thesis by simp
    next
      case False
      with v'(3) j lt Suc.prems(1) show ?thesis by (auto simp: nth_list_update)
    qed
  qed
  ultimately show ?case using v'(2) by blast
qed

lemma operator_shr_assign_shifts:
  assumes "0 < k" and "k < length (bits a)"
  shows "operator_shr_assign a k =
     Some (Inr (a\<lparr>bits := replicate k False @ take (length (bits a) - k) (bits a)\<rparr>))"
proof -
  let ?v = "bits a" and ?n = "length (bits a)"
  have "\<exists>v'. shr_loop (?n - 1) k ?v = Some (Inr v') \<and> length v' = length ?v \<and>
      (\<forall>j < length ?v. v' ! j = (if k \<le> j \<and> j \<le> ?n - 1 then ?v ! (j - k) else ?v ! j))"
  proof (rule shr_loop_down)
    show "0 < k" by (rule assms(1))
    show "k \<le> ?n - 1" using assms(2) by linarith
    show "?n - 1 < length ?v" using assms by linarith
  qed
  then obtain v1 where v1: "shr_loop (?n - 1) k ?v = Some (Inr v1)" "length v1 = ?n"
    "\<forall>j < ?n. v1 ! j = (if k \<le> j \<and> j \<le> ?n - 1 then ?v ! (j - k) else ?v ! j)"
    by blast
  have "\<exists>v'. assign_loop (\<lambda>v i. Inr False) 0 k v1 = Inr v' \<and> length v' = length v1 \<and>
      (\<forall>j < length v1. v' ! j = (if 0 \<le> j \<and> j < k then (\<lambda>x j. False) (v1 ! j) j else v1 ! j))"
    using assms v1(2) by (intro assign_loop_pointwise) simp_all
  then obtain v2 where v2: "assign_loop (\<lambda>v i. Inr False) 0 k v1 = Inr v2" "length v2 = ?n"
    "\<forall>j < ?n. v2 ! j = (if j < k then False else v1 ! j)"
    using v1(2) by auto
  have "v2 = replicate k False @ take (?n - k) ?v"
  proof (rule nth_equalityI)
    show "length v2 = length (replicate k False @ take (?n - k) ?v)"
      using assms v2(2) by simp
  next
    fix j assume "j < length v2"
    then have j: "j < ?n" using v2(2) by simp
    show "v2 ! j = (replicate k False @ take (?n - k) ?v) ! j"
    proof (cases "j < k")
      case True
      with v2(3) j show ?thesis by (simp add: nth_append)
    next
      case False
      with j have in_range: "k \<le> j \<and> j \<le> ?n - 1" by linarith
      from False j have "j - k < ?n - k" by linarith
      then have "take (?n - k) ?v ! (j - k) = ?v ! (j - k)" by simp
      with in_range v2(3) v1(3) j False show ?thesis by (simp add: nth_append)
    qed
  qed
  with v1(1) v2(1) assms show ?thesis
    by (simp add: operator_shr_assign_def)
qed

lemma operator_shl_assign_zero: "operator_shl_assign a 0 = Inr a"
proof (cases "bits a = []")
  case True
  then show ?thesis by (simp add: operator_shl_assign_def operator_shl_assign_with_def)
next
  case False
  let ?v = "bits a" and ?n = "length (bits a)"
  have "\<exists>v'. assign_loop (\<lambda>v i. vec_get v (i + 0)) 0 ?n ?v = Inr v' \<and> length v' = length ?v \<and>
      (\<forall>j < length ?v. v' ! j = (if 0 \<le> j \<and> j < ?n then (\<lambda>x j. x) (?v ! j) j else ?v ! j))"
    by (intro assign_loop_pointwise) (simp_all add: vec_get_def)
  then obtain v1 where v1: "assign_loop (\<lambda>v i. vec_get v i) 0 ?n ?v = Inr v1" "length v1 = ?n"
    "\<forall>j < ?n. v1 ! j = ?v ! j"
    by auto
  then have eq: "v1 = ?v" by (intro nth_equalityI) simp_all
  have "assign_loop (\<lambda>v i. Inr False) ?n ?n ?v = Inr ?v"
    by (subst assign_loop.simps) simp
  with v1(1) eq False show ?thesis
    by (simp add: operator_shl_assign_def operator_shl_assign_with_def)
qed

lemma shl_first_loop_stray:
  assumes "length v = n"
  shows "\<exists>v'. assign_loop (\<lambda>v i. vec_get_stray mem v (i + k)) i n v = Inr v' \<and> length v' = n \<and>
           (\<forall>j < n. v' ! j =
              (if i \<le> j then (if j + k < n then v ! (j + k) else mem (j + k)) else v ! j))"
  using assms
proof (induction "n - i" arbitrary: i v)
  case 0
  then show ?case by (subst assign_loop.simps) auto
next
  case (Suc d)
  then have lt: "i < n" by simp
  let ?x = "if i + k < n then v ! (i + k) else mem (i + k)"
  let ?v1 = "v[i := ?x]"
  have el: "vec_get_stray mem v (i + k) = Inr ?x"
    using Suc.prems by (simp add: vec_get_stray_def)
  have st: "vec_set v i ?x = Inr ?v1"
    using lt Suc.prems by (simp add: vec_set_def)
  have "\<exists>v'. assign_loop (\<lambda>v i. vec_get_stray mem v (i + k)) (i + 1) n ?v1 = Inr v' \<and> length v' = n \<and>
           (\<forall>j < n. v' ! j =
              (if i + 1 \<le> j then (if j + k < n then ?v1 ! (j + k) else mem (j + k)) else ?v1 ! j))"
  proof (rule Suc.hyps(1))
    show "d = n - (i + 1)" using Suc.hyps(2) by simp
    show "length ?v1 = n" using Suc.prems by simp
  qed
  then obtain v' where v':
    "assign_loop (\<lambda>v i. vec_get_stray mem v (i + k)) (i + 1) n ?v1 = Inr v'" "length v' = n"
    "\<forall>j < n. v' ! j =
        (if i + 1 \<le> j then (if j + k < n then ?v1 ! (j + k) else mem (j + k)) else ?v1 ! j)"
    by blast
  have "assign_loop (\<lambda>v i. vec_get_stray mem v (i + k)) i n v = Inr v'"
    using v'(1) lt by (subst assign_loop.simps) (simp add: el st del: if_split cong: if_cong)
  moreover have "\<forall>j < n. v' ! j =
      (if i \<le> j then (if j + k < n then v ! (j + k) else mem (j + k)) else v ! j)"
  proof (intro allI impI)
    fix j assume j: "j < n"
    show "v' ! j = (if i \<le> j then (if j + k < n then v ! (j + k) else mem (j + k)) else v ! j)"
    proof (cases "j = i")
      case True
      with v'(3) j Suc.prems show ?thesis by simp
    next
      case False
      with v'(3) j Suc.prems show ?thesis by (auto simp: nth_list_update)
    qed
  qed
  ultimately show ?case using v'(2) by blast
qed

lemma operator_shl_assign_stray_shifts:
  assumes "k < length (bits a)"
  shows "operator_shl_assign_with (vec_get_stray mem) a k =
     Inr (a\<lparr>bits := drop k (bits a) @ replicate k False\<rparr>)"
proof -
  let ?v = "bits a" and ?n = "length (bits a)"
  from shl_first_loop_stray [of ?v ?n mem k 0]
  obtain v1 where v1: "assign_loop (\<lambda>v i. vec_get_stray mem v (i + k)) 0 ?n ?v = Inr v1"
    "length v1 = ?n"
    "\<forall>j < ?n. v1 ! j = (if j + k < ?n then ?v ! (j + k) else mem (j + k))"
    by auto
  have "\<exists>v'. assign_loop (\<lambda>v i. Inr False) (?n - k) ?n v1 = Inr v' \<and> length v' = length v1 \<and>
      (\<forall>j < length v1. v' ! j =
         (if ?n - k \<le> j \<and> j < ?n then (\<lambda>x j. False) (v1 ! j) j else v1 ! j))"
    using v1(2) by (intro assign_loop_pointwise) simp_all
  then obtain v2 where v2: "assign_loop (\<lambda>v i. Inr False) (?n - k) ?n v1 = Inr v2"
    "length v2 = ?n" "\<forall>j < ?n. v2 ! j = (if ?n - k \<le> j then False else v1 ! j)"
    using v1(2) by auto
  have "v2 = drop k ?v @ replicate k False"
  proof (rule nth_equalityI)
    show "length v2 = length (drop k ?v @ replicate k False)"
      using assms v2(2) by simp
  next
    fix j assume "j < length v2"
    then have j: "j < ?n" using v2(2) by simp
    show "v2 ! j = (drop k ?v @ replicate k False) ! j"
    proof (cases "?n - k \<le> j")
      case True
      with j assms have "j - (?n - k) < k" by linarith
      with True v2(3) j show ?thesis by (simp add: nth_append)
    next
      case False
      then have "j + k < ?n" by linarith
      with False v2(3) v1(3) j show ?thesis by (simp add: nth_append add.commute)
    qed
  qed
  with v1(1,2) v2(1) assms show ?thesis
    by (simp add: operator_shl_assign_with_def)
qed

section \<open>The claims\<close>

subsection \<open>C1: the bitwise operators that return a new object\<close>

text \<open>
  C1, as amended. Let \<open>a\<close> and \<open>b\<close> be two objects of the class \<^verbatim>\<open>dynamic_bitset<N>\<close>
  whose shorter length \<open>m\<close> is at least \<open>N\<close> and below \<open>2^31\<close>. Then each of
  \<^verbatim>\<open>a & b\<close>, \<^verbatim>\<open>a | b\<close> and \<^verbatim>\<open>a ^ b\<close> returns a new object of length \<open>m\<close> whose
  bit at every position \<open>i < m\<close> is the conjunction, the disjunction and the inequality
  of \<open>a[i]\<close> and \<open>b[i]\<close>. For \<open>N = 0\<close> the first condition always holds.
\<close>

theorem bitwise_operators_min_length:
  assumes "N \<le> min (size_bitset a) (size_bitset b)"
    and "min (size_bitset a) (size_bitset b) < 2 ^ 31"
  shows "(\<exists>r. operator_and N a b = Inr r \<and> size_bitset r = min (size_bitset a) (size_bitset b) \<and>
            (\<forall>i < min (size_bitset a) (size_bitset b). bits r ! i = (bits a ! i \<and> bits b ! i))) \<and>
         (\<exists>r. operator_or N a b = Inr r \<and> size_bitset r = min (size_bitset a) (size_bitset b) \<and>
            (\<forall>i < min (size_bitset a) (size_bitset b). bits r ! i = (bits a ! i \<or> bits b ! i))) \<and>
         (\<exists>r. operator_xor N a b = Inr r \<and> size_bitset r = min (size_bitset a) (size_bitset b) \<and>
            (\<forall>i < min (size_bitset a) (size_bitset b). bits r ! i = (bits a ! i \<noteq> bits b ! i)))"
  using assms
  by (simp add: operator_and_eq operator_or_eq operator_xor_eq size_bitset_def [of "dynamic_bitset_vector _ _"]
      vector_of_map_unpadded)

text \<open>
  The theorem at the operands of the test \<^verbatim>\<open>and_operator\<close>, of lengths 6 and 5 with
  \<open>N = 0\<close>: the result has length 5 and ends in the bits 0 and 1.
\<close>

theorem bitwise_operators_min_length_witness:
  "(0::nat) \<le> min (size_bitset (dynamic_bitset_cstring 0 ''010010''))
                 (size_bitset (dynamic_bitset_cstring 0 ''10101'')) \<and>
   min (size_bitset (dynamic_bitset_cstring 0 ''010010''))
       (size_bitset (dynamic_bitset_cstring 0 ''10101'')) < (2::nat) ^ 31 \<and>
   (\<exists>r. operator_and 0 (dynamic_bitset_cstring 0 ''010010'') (dynamic_bitset_cstring 0 ''10101'') = Inr r \<and>
        size_bitset r = 5 \<and> bits r ! 3 = False \<and> bits r ! 4 = True)"
proof -
  let ?f = "dynamic_bitset_cstring 0 ''010010''" and ?e = "dynamic_bitset_cstring 0 ''10101''"
  have m: "min (size_bitset ?f) (size_bitset ?e) = 5"
    by (simp add: size_bitset_def bits_010010 bits_10101)
  have "\<exists>r. operator_and 0 ?f ?e = Inr r \<and> size_bitset r = min (size_bitset ?f) (size_bitset ?e) \<and>
            (\<forall>i < min (size_bitset ?f) (size_bitset ?e). bits r ! i = (bits ?f ! i \<and> bits ?e ! i))"
    using bitwise_operators_min_length [of 0 ?f ?e] m by simp
  then obtain r where r: "operator_and 0 ?f ?e = Inr r" "size_bitset r = 5"
      "\<forall>i < 5. bits r ! i = (bits ?f ! i \<and> bits ?e ! i)"
    unfolding m by blast
  from r(3) have "bits r ! 3 = False" "bits r ! 4 = True"
    by (simp_all add: bits_010010 bits_10101)
  with r(1,2) m show ?thesis by simp
qed

text \<open>
  C1 as stated fails when an operand is shorter than \<open>N\<close>, because the result is built
  by the constructor, which pads to \<open>N\<close>. An object is that short after it has been
  moved from: with \<open>N = 5\<close>, the conjunction of a moved-from object (length 0) and
  \<^verbatim>\<open>"10101"\<close> has length 5, not 0.
\<close>

theorem bitwise_and_of_moved_from_counterexample:
  "operator_and 5 (snd (dynamic_bitset_move (dynamic_bitset_cstring 5 ''10001'')))
       (dynamic_bitset_cstring 5 ''10101'') =
     Inr \<lparr>bits = [False, False, False, False, False]\<rparr> \<and>
   size_bitset \<lparr>bits = [False, False, False, False, False]\<rparr> \<noteq>
     min (size_bitset (snd (dynamic_bitset_move (dynamic_bitset_cstring 5 ''10001''))))
         (size_bitset (dynamic_bitset_cstring 5 ''10101''))"
proof -
  have empty: "bits (snd (dynamic_bitset_move (dynamic_bitset_cstring 5 ''10001''))) = []"
    by (simp add: dynamic_bitset_move_def)
  have "bits (dynamic_bitset_vector 5 []) = [False, False, False, False, False]"
    by (simp add: dynamic_bitset_vector_bits replicate_5)
  then have "dynamic_bitset_vector 5 [] = \<lparr>bits = [False, False, False, False, False]\<rparr>"
    by (cases "dynamic_bitset_vector 5 []") simp
  then show ?thesis
    by (simp add: operator_and_eq size_bitset_def empty)
qed

subsection \<open>C2: the bitwise operators that assign\<close>




subsection \<open>C3: shifting by the length or more\<close>

text \<open>
  C3. For every object and every shift amount \<open>k\<close> not below its length, both
  \<^verbatim>\<open><<=\<close> and \<^verbatim>\<open>>>=\<close> return normally and leave a vector of the same length with
  every bit false, whatever the bits were.
\<close>

theorem shift_by_at_least_length:
  assumes "size_bitset a \<le> k"
  shows "operator_shl_assign a k = Inr (a\<lparr>bits := replicate (size_bitset a) False\<rparr>) \<and>
         operator_shr_assign a k = Some (Inr (a\<lparr>bits := replicate (size_bitset a) False\<rparr>))"
  using assms
  by (simp add: operator_shl_assign_def operator_shl_assign_with_def operator_shr_assign_def
      size_bitset_def)

text \<open>The theorem at \<^verbatim>\<open>"10101"\<close> shifted by 5, its length.\<close>

theorem shift_by_at_least_length_witness:
  "size_bitset \<lparr>bits = [True, False, True, False, True]\<rparr> \<le> 5 \<and>
   operator_shl_assign \<lparr>bits = [True, False, True, False, True]\<rparr> 5 =
     Inr \<lparr>bits = [False, False, False, False, False]\<rparr> \<and>
   operator_shr_assign \<lparr>bits = [True, False, True, False, True]\<rparr> 5 =
     Some (Inr \<lparr>bits = [False, False, False, False, False]\<rparr>)"
proof -
  have le: "size_bitset \<lparr>bits = [True, False, True, False, True]\<rparr> \<le> 5"
    by (simp add: size_bitset_def)
  from shift_by_at_least_length [OF le] le show ?thesis
    by (simp add: size_bitset_def replicate_5)
qed

subsection \<open>C4: the right shift\<close>

text \<open>
  C4 asks that \<^verbatim>\<open>>>=\<close> by every \<open>k\<close> with \<open>0 \<le> k < length\<close> ends and leaves the
  bits moved by \<open>k\<close>. The code does so for \<open>0 < k\<close> (lemma
  \<open>operator_shr_assign_shifts\<close>). For \<open>k = 0\<close> the condition \<^verbatim>\<open>i >= shift_amount\<close> of
  the first loop is always true: after the step at index 0 the counter wraps to
  \<open>SIZE_MAX\<close>, and the loop indexes the vector there (lemma \<open>operator_shr_assign_zero\<close>).
  The theorem evaluates \<^verbatim>\<open>"10101" >>= 0\<close>.
\<close>

theorem right_shift_by_zero_wraps:
  "operator_shr_assign \<lparr>bits = [True, False, True, False, True]\<rparr> 0 =
     Some (Inl (PastEnd 18446744073709551615))"
  by (simp add: operator_shr_assign_def shr_loop.simps vec_get_def vec_set_def SIZE_MAX_def)

subsection \<open>C5: the left shift\<close>

text \<open>
  C5 asks that \<^verbatim>\<open><<=\<close> by every \<open>k\<close> with \<open>0 < k < length\<close> reads no index past the
  end of the vector. The first loop of the code runs \<open>i\<close> up to the length and reads
  \<^verbatim>\<open>bits_[i + shift_amount]\<close>, so for each such \<open>k\<close> it reads the index \<open>length\<close> when
  \<open>i\<close> is \<open>length - k\<close> (lemma \<open>operator_shl_assign_past_end\<close>). The theorem evaluates
  the shift of the test \<^verbatim>\<open>left_shift_operator\<close>, \<^verbatim>\<open>"10101" <<= 2\<close>: at \<open>i = 3\<close> it reads
  the index 5 of 5 bits. Where such a read returns some bit and the loop goes on, the
  second loop overwrites what was read and the bits end as C5 says (lemma
  \<open>operator_shl_assign_stray_shifts\<close>); the reads past the end remain.
\<close>

theorem left_shift_reads_past_the_end:
  "operator_shl_assign \<lparr>bits = [True, False, True, False, True]\<rparr> 2 = Inl (PastEnd 5)"
  by (simp add: operator_shl_assign_def operator_shl_assign_with_def assign_loop.simps vec_get_def
      vec_set_def)

subsection \<open>C6: from bits to a string and back\<close>

text \<open>
  C6. For every boolean sequence \<open>v\<close> of length \<open>N\<close>, the object of length \<open>N\<close> built
  from \<open>v\<close>, converted by \<^verbatim>\<open>to_string\<close> and built again from that string with the same
  \<open>N\<close>, is the object built from \<open>v\<close>. In the other direction, a string of length \<open>N\<close>
  made of the characters 0 and 1 is the \<^verbatim>\<open>to_string\<close> of the object built from it.
\<close>

theorem string_round_trip:
  "(length v = N \<longrightarrow>
      dynamic_bitset_string N (to_string (dynamic_bitset_vector N v)) = dynamic_bitset_vector N v) \<and>
   (length s = N \<and> (\<forall>c \<in> set s. c = CHR ''0'' \<or> c = CHR ''1'') \<longrightarrow>
      to_string (dynamic_bitset_string N s) = s)"
proof (intro conjI impI)
  assume "length v = N"
  then show "dynamic_bitset_string N (to_string (dynamic_bitset_vector N v)) = dynamic_bitset_vector N v"
    by (simp add: dynamic_bitset_vector_same_length dynamic_bitset_string_same_length to_string_eq
        bits_of_digits del: map_map)
next
  assume "length s = N \<and> (\<forall>c \<in> set s. c = CHR ''0'' \<or> c = CHR ''1'')"
  then show "to_string (dynamic_bitset_string N s) = s"
    by (simp add: dynamic_bitset_string_same_length to_string_eq digits_of_bits del: map_map)
qed

text \<open>The theorem at the six bits 010101 and at the string \<^verbatim>\<open>"010101"\<close>, with \<open>N = 6\<close>.\<close>

theorem string_round_trip_witness:
  "length [False, True, False, True, False, True] = 6 \<and>
   to_string (dynamic_bitset_vector 6 [False, True, False, True, False, True]) = ''010101'' \<and>
   dynamic_bitset_string 6 ''010101'' = dynamic_bitset_vector 6 [False, True, False, True, False, True] \<and>
   to_string (dynamic_bitset_string 6 ''010101'') = ''010101''"
proof -
  have v: "dynamic_bitset_vector 6 [False, True, False, True, False, True] =
      \<lparr>bits = [False, True, False, True, False, True]\<rparr>"
    by (simp add: dynamic_bitset_vector_same_length)
  have s: "to_string (dynamic_bitset_vector 6 [False, True, False, True, False, True]) = ''010101''"
    by (simp add: v to_string_eq)
  have l: "length [False, True, False, True, False, True] = 6" by simp
  from string_round_trip [of "[False, True, False, True, False, True]" 6 "''010101''"] l
  have "dynamic_bitset_string 6 (to_string (dynamic_bitset_vector 6 [False, True, False, True, False, True]))
      = dynamic_bitset_vector 6 [False, True, False, True, False, True]"
    by blast
  moreover from string_round_trip [of "[False, True, False, True, False, True]" 6 "''010101''"]
  have "to_string (dynamic_bitset_string 6 ''010101'') = ''010101''"
    by simp
  ultimately show ?thesis using s l by (simp only:)
qed

subsection \<open>C7: the conversion to an unsigned integer\<close>

text \<open>
  C7, as amended. For every object \<^verbatim>\<open>to_ulong\<close> returns the number that the bits stand
  for, most significant bit first, reduced modulo \<open>2^64\<close>; it returns that number
  itself for every object of at most 64 bits. The object of length 6 built from
  \<^verbatim>\<open>"10101"\<close> converts to 21.
\<close>

theorem to_ulong_value:
  "unat (to_ulong a) = big_endian_value (bits a) mod 2 ^ 64 \<and>
   (size_bitset a \<le> 64 \<longrightarrow> unat (to_ulong a) = big_endian_value (bits a)) \<and>
   to_ulong (dynamic_bitset_cstring 6 ''10101'') = 21"
proof (intro conjI impI)
  show "unat (to_ulong a) = big_endian_value (bits a) mod 2 ^ 64"
    by (rule unat_to_ulong)
next
  assume "size_bitset a \<le> 64"
  then have "(2::nat) ^ length (bits a) \<le> 2 ^ 64"
    by (intro power_increasing) (simp_all add: size_bitset_def)
  with big_endian_value_less [of "bits a"] have "big_endian_value (bits a) < 2 ^ 64"
    by (rule less_le_trans)
  then show "unat (to_ulong a) = big_endian_value (bits a)"
    by (simp add: unat_to_ulong)
next
  show "to_ulong (dynamic_bitset_cstring 6 ''10101'') = 21"
    by (simp add: to_ulong_eq bits_6_10101 big_endian_value_010101)
qed

text \<open>The theorem at the object of length 6 built from \<^verbatim>\<open>"10101"\<close>.\<close>

theorem to_ulong_value_witness:
  "size_bitset (dynamic_bitset_cstring 6 ''10101'') \<le> 64 \<and>
   unat (to_ulong (dynamic_bitset_cstring 6 ''10101'')) = 21 \<and>
   big_endian_value (bits (dynamic_bitset_cstring 6 ''10101'')) = 21"
proof -
  have sz: "size_bitset (dynamic_bitset_cstring 6 ''10101'') \<le> 64"
    by (simp add: size_bitset_def bits_6_10101)
  with to_ulong_value [of "dynamic_bitset_cstring 6 ''10101''"]
  have "unat (to_ulong (dynamic_bitset_cstring 6 ''10101'')) =
      big_endian_value (bits (dynamic_bitset_cstring 6 ''10101''))"
    by blast
  with sz show ?thesis
    by (simp add: bits_6_10101 big_endian_value_010101)
qed

text \<open>
  C7 as stated, for every object, fails from 65 bits on: the 65 bits 1, 0, ..., 0 stand
  for \<open>2^64\<close>, and \<^verbatim>\<open>to_ulong\<close> returns 0, because \<^verbatim>\<open>power\<close> has wrapped to 0 when
  the loop reaches the first bit.
\<close>

theorem to_ulong_wraps_counterexample:
  "to_ulong \<lparr>bits = True # replicate 64 False\<rparr> = 0 \<and>
   big_endian_value (True # replicate 64 False) = 18446744073709551616"
proof -
  have "to_ulong \<lparr>bits = True # replicate 64 False\<rparr> = word_of_nat (2 ^ 64)"
    by (simp only: to_ulong_eq big_endian_value_one_then_zeros dynamic_bitset.simps)
  then show ?thesis
    by (simp add: big_endian_value_one_then_zeros)
qed

subsection \<open>C8: element access\<close>

text \<open>
  C8. Reading \<^verbatim>\<open>x[i]\<close> and writing \<^verbatim>\<open>x[i] = b\<close> fail with the out-of-range error
  exactly when \<open>i\<close> is not below the length; the failure leaves the object as it was.
  For \<open>i\<close> below the length the read returns the bit at \<open>i\<close> (and changes nothing),
  and the write sets the bit at \<open>i\<close> to \<open>b\<close> and changes no other bit.
\<close>

theorem element_access:
  "(fst (operator_subscript_const a i) = Inl IndexOutOfBounds \<longleftrightarrow> size_bitset a \<le> i) \<and>
   snd (operator_subscript_const a i) = a \<and>
   (i < size_bitset a \<longrightarrow> fst (operator_subscript_const a i) = Inr (bits a ! i)) \<and>
   (fst (operator_subscript_assign a i b) = Inl IndexOutOfBounds \<longleftrightarrow> size_bitset a \<le> i) \<and>
   (size_bitset a \<le> i \<longrightarrow> snd (operator_subscript_assign a i b) = a) \<and>
   (i < size_bitset a \<longrightarrow>
      operator_subscript_assign a i b = (Inr (), a\<lparr>bits := (bits a)[i := b]\<rparr>))"
  by (simp add: operator_subscript_const_def operator_subscript_assign_def at_def size_bitset_def)

text \<open>
  The theorem at the bits 1011 of \<^verbatim>\<open>dynamic_bitset<>(11)\<close>: the indices 1 and 2 are in
  range, the index 4 is not.
\<close>

theorem element_access_witness:
  "operator_subscript_const \<lparr>bits = [True, False, True, True]\<rparr> 1 =
     (Inr False, \<lparr>bits = [True, False, True, True]\<rparr>) \<and>
   operator_subscript_assign \<lparr>bits = [True, False, True, True]\<rparr> 2 False =
     (Inr (), \<lparr>bits = [True, False, False, True]\<rparr>) \<and>
   operator_subscript_const \<lparr>bits = [True, False, True, True]\<rparr> 4 =
     (Inl IndexOutOfBounds, \<lparr>bits = [True, False, True, True]\<rparr>) \<and>
   operator_subscript_assign \<lparr>bits = [True, False, True, True]\<rparr> 4 True =
     (Inl IndexOutOfBounds, \<lparr>bits = [True, False, True, True]\<rparr>)"
proof -
  let ?x = "\<lparr>bits = [True, False, True, True]\<rparr>"
  have sz: "size_bitset ?x = 4" by (simp add: size_bitset_def)
  have "1 < size_bitset ?x" "2 < size_bitset ?x" "size_bitset ?x \<le> 4"
    by (simp_all add: sz)
  with element_access [of ?x 1 False] element_access [of ?x 2 False]
    element_access [of ?x 4 True]
  show ?thesis
    by (simp add: prod_eq_iff)
qed

subsection \<open>C9: construction and padding\<close>

text \<open>
  C9, as amended. Let \<open>pad = N - source_length\<close> be a value of an \<^verbatim>\<open>int\<close>, that is
  \<open>-2^31 \<le> pad < 2^31\<close>. Then every constructor of \<^verbatim>\<open>dynamic_bitset<N>\<close> follows the
  padding rule: a positive \<open>pad\<close> puts \<open>pad\<close> false bits in front of the source, and
  otherwise the source is used as it is. The source is the vector or the initializer
  list itself, the bits of the characters of a string, and \<^verbatim>\<open>int_to_binary\<close> of an
  integer. The object of length 6 built from the integer 10 holds 0, 0, 1, 0, 1, 0.
\<close>

theorem construction_pads_on_the_left:
  "(fits_int (int N - int (length source)) \<longrightarrow>
      bits (dynamic_bitset_vector N source) = padding_rule N source \<and>
      bits (dynamic_bitset_initializer_list N source) = padding_rule N source) \<and>
   (fits_int (int N - int (length s)) \<longrightarrow>
      bits (dynamic_bitset_string N s) = padding_rule N (map (\<lambda>c. c = CHR ''1'') s) \<and>
      bits (dynamic_bitset_cstring N s) = padding_rule N (map (\<lambda>c. c = CHR ''1'') s)) \<and>
   (fits_int (int N - int (length (int_to_binary k))) \<longrightarrow>
      bits (dynamic_bitset_int N k) = padding_rule N (int_to_binary k)) \<and>
   bits (dynamic_bitset_int 6 10) = [False, False, True, False, True, False]"
  by (simp add: fits_int_def padding_rule_eq dynamic_bitset_vector_bits
      dynamic_bitset_initializer_list_bits dynamic_bitset_string_bits dynamic_bitset_cstring_bits
      dynamic_bitset_int_bits bits_int_6_10 del: replicate_eq_replicate)

text \<open>
  The theorem at a vector of 4 bits with \<open>N = 6\<close> (two bits of padding), at a string of
  5 characters with \<open>N = 0\<close> (\<open>pad = -5\<close>, no padding) and at the integer 10 with
  \<open>N = 5\<close>, as in the test \<^verbatim>\<open>int_to_bit_padding\<close>.
\<close>

theorem construction_pads_on_the_left_witness:
  "fits_int (int 6 - int (length [True, False, True, False])) \<and>
   bits (dynamic_bitset_vector 6 [True, False, True, False]) =
     [False, False, True, False, True, False] \<and>
   fits_int (int 0 - int (length ''10101'')) \<and>
   bits (dynamic_bitset_string 0 ''10101'') = [True, False, True, False, True] \<and>
   fits_int (int 5 - int (length (int_to_binary 10))) \<and>
   bits (dynamic_bitset_int 5 10) = [False, True, False, True, False]"
proof -
  have f: "fits_int (int 6 - int (length [True, False, True, False]))"
    "fits_int (int 0 - int (length ''10101''))"
    "fits_int (int 5 - int (length (int_to_binary 10)))"
    by (simp_all add: fits_int_def int_to_binary_10)
  from construction_pads_on_the_left [of 6 "[True, False, True, False]" "''10101''" 10] f(1)
  have 1: "bits (dynamic_bitset_vector 6 [True, False, True, False]) =
      padding_rule 6 [True, False, True, False]"
    by blast
  from construction_pads_on_the_left [of 0 "[]" "''10101''" 10] f(2)
  have 2: "bits (dynamic_bitset_string 0 ''10101'') =
      padding_rule 0 (map (\<lambda>c. c = CHR ''1'') ''10101'')"
    by blast
  from construction_pads_on_the_left [of 5 "[]" "''''" 10] f(3)
  have 3: "bits (dynamic_bitset_int 5 10) = padding_rule 5 (int_to_binary 10)"
    by blast
  have "padding_rule 6 [True, False, True, False] = [False, False, True, False, True, False]"
    "padding_rule 0 (map (\<lambda>c. c = CHR ''1'') ''10101'') = [True, False, True, False, True]"
    "padding_rule 5 (int_to_binary 10) = [False, True, False, True, False]"
    by (simp_all add: padding_rule_eq int_to_binary_10 numeral_2_eq_2)
  with 1 2 3 f show ?thesis by (simp only:) 
qed

text \<open>
  C9 as stated, for every \<open>N\<close>, fails when \<open>pad\<close> is not a value of an \<^verbatim>\<open>int\<close>: for
  \<open>N = 2^31\<close> and the empty vector, \<^verbatim>\<open>number_of_padding\<close> is \<open>-2^31\<close>, nothing is
  prepended, and the object is empty where the rule asks for \<open>2^31\<close> false bits.
\<close>

theorem construction_beyond_int_counterexample:
  "bits (dynamic_bitset_vector 2147483648 []) = [] \<and>
   length (padding_rule 2147483648 []) = 2147483648"
proof -
  have "number_of_padding 2147483648 0 = - 2147483648"
    by (simp add: number_of_padding_def)
  then have "bits (dynamic_bitset_vector 2147483648 []) = []"
    by (simp add: dynamic_bitset_vector_def dynamic_bitset_default_def add_padding_eq)
  then show ?thesis
    by (simp add: padding_rule_eq)
qed

subsection \<open>C10: the quantifiers on the empty vector\<close>

text \<open>
  C10. On an object of length zero \<^verbatim>\<open>all()\<close> is true, \<^verbatim>\<open>any()\<close> is false and
  \<^verbatim>\<open>none()\<close> is true.
\<close>

theorem quantifiers_on_empty:
  assumes "size_bitset a = 0"
  shows "all a \<and> \<not> any a \<and> none a"
  using assms by (simp add: all_def any_def none_def size_bitset_def)

text \<open>The theorem at the default object of \<^verbatim>\<open>dynamic_bitset<0>\<close>.\<close>

theorem quantifiers_on_empty_witness:
  "size_bitset (dynamic_bitset_default 0) = 0 \<and> all (dynamic_bitset_default 0) \<and>
   \<not> any (dynamic_bitset_default 0) \<and> none (dynamic_bitset_default 0)"
proof -
  have z: "size_bitset (dynamic_bitset_default 0) = 0"
    by (simp add: size_bitset_def dynamic_bitset_default_def)
  from quantifiers_on_empty [OF z] z show ?thesis by simp
qed

end
